theory Spec2Isabelle
  imports Main "HOL-Library.Sublist" "HOL-Library.Multiset"
begin

section \<open>The Allusion clipper: background script of the browser extension\<close>

text \<open>
  The development embeds the background script of the clipper extension: the import
  request \<open>importImage\<close>, the derivation of a file name from a URL
  (\<open>filenameFromUrl\<close>), the listeners for messages, for the context menu and for
  clicked notifications, and the parser that mines tag names from a prompt (the
  listener for external messages and \<open>permute\<close>). The listeners for \<open>onInstalled\<close>
  and \<open>onCommand\<close> touch nothing that is modelled here and are left out.

  A string is a list of \<open>char\<close>, read as a JavaScript string whose UTF-16 code units
  are all below 256. On these strings \<open>trim\<close> and \<open>toLowerCase\<close> are what the
  language defines: the white space is U+0009 to U+000D, U+0020 and U+00A0, the upper
  case letters are A to Z, U+00C0 to U+00D6 and U+00D8 to U+00DE, each \<open>0x20\<close> below its
  lower case letter. \<open>undefined\<close> is \<open>None\<close>.
\<close>

subsection \<open>String and array methods of the language\<close>

definition startsWith :: "string \<Rightarrow> string \<Rightarrow> bool" where
  "startsWith s p = prefix p s"

definition endsWith :: "string \<Rightarrow> string \<Rightarrow> bool" where
  "endsWith s p = suffix p s"

definition isWhiteSpace :: "char \<Rightarrow> bool" where
  "isWhiteSpace c =
     (c \<in> set [CHR 0x09, CHR 0x0A, CHR 0x0B, CHR 0x0C, CHR 0x0D, CHR '' '', CHR 0xA0])"

definition trim :: "string \<Rightarrow> string" where
  "trim s = rev (dropWhile isWhiteSpace (rev (dropWhile isWhiteSpace s)))"

definition upperCase :: string where
  "upperCase = ''ABCDEFGHIJKLMNOPQRSTUVWXYZ'' @
     [CHR 0xC0, CHR 0xC1, CHR 0xC2, CHR 0xC3, CHR 0xC4, CHR 0xC5,
      CHR 0xC6, CHR 0xC7, CHR 0xC8, CHR 0xC9, CHR 0xCA, CHR 0xCB,
      CHR 0xCC, CHR 0xCD, CHR 0xCE, CHR 0xCF, CHR 0xD0, CHR 0xD1,
      CHR 0xD2, CHR 0xD3, CHR 0xD4, CHR 0xD5, CHR 0xD6, CHR 0xD8,
      CHR 0xD9, CHR 0xDA, CHR 0xDB, CHR 0xDC, CHR 0xDD, CHR 0xDE]"

definition lowerCase :: string where
  "lowerCase = ''abcdefghijklmnopqrstuvwxyz'' @
     [CHR 0xE0, CHR 0xE1, CHR 0xE2, CHR 0xE3, CHR 0xE4, CHR 0xE5,
      CHR 0xE6, CHR 0xE7, CHR 0xE8, CHR 0xE9, CHR 0xEA, CHR 0xEB,
      CHR 0xEC, CHR 0xED, CHR 0xEE, CHR 0xEF, CHR 0xF0, CHR 0xF1,
      CHR 0xF2, CHR 0xF3, CHR 0xF4, CHR 0xF5, CHR 0xF6, CHR 0xF8,
      CHR 0xF9, CHR 0xFA, CHR 0xFB, CHR 0xFC, CHR 0xFD, CHR 0xFE]"

definition toLowerCaseChar :: "char \<Rightarrow> char" where
  "toLowerCaseChar c =
     (case map_of (zip upperCase lowerCase) c of Some l \<Rightarrow> l | None \<Rightarrow> c)"

definition toLowerCase :: "string \<Rightarrow> string" where
  "toLowerCase s = map toLowerCaseChar s"

text \<open>
  A matcher gives the length of the match that starts at the head of a string, \<open>0\<close>
  when there is none. \<open>split_by\<close> is \<open>String.prototype.split\<close> and \<open>replace_by\<close> is
  \<open>String.prototype.replace\<close> with a global pattern, for a pattern that matches no
  empty string: the scan goes from left to right and resumes behind each match.
\<close>

function split_by :: "(string \<Rightarrow> nat) \<Rightarrow> string \<Rightarrow> string list" where
  "split_by m [] = [[]]"
| "split_by m (c # cs) =
     (if 0 < m (c # cs) then [] # split_by m (drop (m (c # cs)) (c # cs))
      else (case split_by m cs of [] \<Rightarrow> [[c]] | r # rs \<Rightarrow> (c # r) # rs))"
  by pat_completeness auto
termination
  by (relation "measure (\<lambda>(m, s). length s)") auto

function replace_by :: "(string \<Rightarrow> nat) \<Rightarrow> string \<Rightarrow> string \<Rightarrow> string" where
  "replace_by m rep [] = []"
| "replace_by m rep (c # cs) =
     (if 0 < m (c # cs) then rep @ replace_by m rep (drop (m (c # cs)) (c # cs))
      else c # replace_by m rep cs)"
  by pat_completeness auto
termination
  by (relation "measure (\<lambda>(m, rep, s). length s)") auto

text \<open>The matcher of a literal, non-empty pattern.\<close>

definition literal :: "string \<Rightarrow> string \<Rightarrow> nat" where
  "literal pat s = (if pat \<noteq> [] \<and> prefix pat s then length pat else 0)"

definition split_str :: "string \<Rightarrow> string \<Rightarrow> string list" where
  "split_str s sep = split_by (literal sep) s"

definition replace_all :: "string \<Rightarrow> string \<Rightarrow> string \<Rightarrow> string" where
  "replace_all s pat rep = replace_by (literal pat) rep s"

text \<open>
  \<open>s.replace(pat, rep)\<close> with a string pattern replaces the first occurrence only
  (\<open>rep\<close> holds no \<open>$\<close> pattern in this program).
\<close>

fun replace_first :: "string \<Rightarrow> string \<Rightarrow> string \<Rightarrow> string" where
  "replace_first [] pat rep = (if pat = [] then rep else [])"
| "replace_first (c # cs) pat rep =
     (if prefix pat (c # cs) then rep @ drop (length pat) (c # cs)
      else c # replace_first cs pat rep)"

text \<open>
  \<open>indexOf\<close> of an array, and of a string for a pattern of one character: the first
  index of the value, \<open>-1\<close> when it does not occur.
\<close>

fun indexOf :: "'a list \<Rightarrow> 'a \<Rightarrow> int" where
  "indexOf [] v = - 1"
| "indexOf (x # xs) v =
     (if x = v then 0 else (let i = indexOf xs v in if i = - 1 then - 1 else i + 1))"

definition slice :: "'a list \<Rightarrow> int \<Rightarrow> int \<Rightarrow> 'a list" where
  "slice s b e =
     (let n = int (length s);
          lo = (if b < 0 then max (n + b) 0 else min b n);
          hi = (if e < 0 then max (n + e) 0 else min e n)
      in take (nat (hi - lo)) (drop (nat lo) s))"

fun join :: "string list \<Rightarrow> string \<Rightarrow> string" where
  "join [] sep = []"
| "join [x] sep = x"
| "join (x # y # ys) sep = x @ sep @ join (y # ys) sep"

subsection \<open>File name of an image\<close>

text \<open>
  \<^verbatim>\<open>let filename = srcUrl.split('/').pop().split('#')[0].split('?')[0];\<close>
  A split never returns the empty array (\<open>split_by_not_Nil\<close> below), so \<open>pop\<close> and
  \<open>[0]\<close> are \<open>last\<close> and \<open>hd\<close>.
\<close>

definition filenameFromUrl :: "string \<Rightarrow> string \<Rightarrow> string" where
  "filenameFromUrl srcUrl fallback =
     (let filename = hd (split_str (hd (split_str (last (split_str srcUrl ''/'')) ''#'')) ''?'')
      in if startsWith srcUrl ''data:image/'' \<or> indexOf filename (CHR ''.'') = - 1
         then fallback
         else slice filename 0 (indexOf filename (CHR ''.'')))"


subsection \<open>Permutations of an array\<close>

text \<open>
  \<^verbatim>\<open>const permute = (arr) => { if (arr.length <= 1) return [arr]; ... }\<close>
  The outer loop runs over the indices of \<open>arr\<close>, the inner one over the permutations
  of \<open>arr\<close> without the element at the index.
\<close>

function permute :: "'a list \<Rightarrow> 'a list list" where
  "permute arr =
     (if length arr \<le> 1 then [arr]
      else concat (map (\<lambda>i. map (\<lambda>perm. arr ! i # perm)
                                (permute (take i arr @ drop (Suc i) arr)))
                       [0..<length arr]))"
  by pat_completeness auto
termination
  by (relation "measure length") auto

declare permute.simps [simp del]

subsection \<open>Tag names of a prompt\<close>

text \<open>
  The listener for external messages parses the prompt in the steps below; the names
  are those of the listener's variables. \<open>promptLines\<close> is the value the variable has
  after its second assignment: the lines that are not commented out, each without the
  first \<^verbatim>\<open>#!allusion \<close> it holds.
\<close>

definition keepLine :: "string \<Rightarrow> bool" where
  "keepLine line =
     (\<not> startsWith (trim line) ''#'' \<or> startsWith (trim line) ''#!allusion '')"

definition promptLines :: "string \<Rightarrow> string list" where
  "promptLines prompt =
     map (\<lambda>line. replace_first line ''#!allusion '' [])
       (filter keepLine (split_str prompt [CHR 0x0A]))"

text \<open>
  The matchers of the two regular expressions that are not literals:
  \<^verbatim>\<open>/:\d+(\.\d+)?/\<close> (the digits are taken greedily; the fraction is taken when a
  digit follows the point) and \<^verbatim>\<open>/ \(|\)/\<close>.
\<close>

definition isDigit :: "char \<Rightarrow> bool" where
  "isDigit c = (c \<in> set ''0123456789'')"

definition weight :: "string \<Rightarrow> nat" where
  "weight s =
     (case s of
        [] \<Rightarrow> 0
      | c # cs \<Rightarrow>
          if c = CHR '':'' \<and> takeWhile isDigit cs \<noteq> [] then
            1 + length (takeWhile isDigit cs) +
              (case dropWhile isDigit cs of
                 [] \<Rightarrow> 0
               | d # ds \<Rightarrow>
                   if d = CHR ''.'' \<and> takeWhile isDigit ds \<noteq> []
                   then 1 + length (takeWhile isDigit ds) else 0)
          else 0)"

definition parenthesis :: "string \<Rightarrow> nat" where
  "parenthesis s = (if prefix '' ('' s then 2 else if prefix '')'' s then 1 else 0)"

definition cleanedLine :: "string \<Rightarrow> string" where
  "cleanedLine line =
     (let escaped = replace_all (replace_all line [CHR 0x5C, CHR ''(''] ''TEMP_OPEN_PAREN'')
                      [CHR 0x5C, CHR '')''] ''TEMP_CLOSE_PAREN'';
          removed = filter (\<lambda>c. c \<noteq> CHR ''('' \<and> c \<noteq> CHR '')'') escaped;
          restored = replace_all (replace_all removed ''TEMP_OPEN_PAREN'' ''('')
                       ''TEMP_CLOSE_PAREN'' '')''
      in replace_by weight [] restored)"

definition parts :: "string \<Rightarrow> string list" where
  "parts line =
     concat (map (\<lambda>part. filter (\<lambda>p. p \<noteq> []) (split_by parenthesis part))
                 (split_str (cleanedLine line) '', ''))"

definition processedPart :: "string \<Rightarrow> string list" where
  "processedPart part =
     (let words = split_str (trim part) '' ''
      in if length words > 1 then map (\<lambda>perm. join perm '' '') (permute words)
         else [part])"

definition processedParts :: "string \<Rightarrow> string list" where
  "processedParts line = concat (map processedPart (parts line))"

definition filteredPrompt :: "string \<Rightarrow> string" where
  "filteredPrompt prompt =
     join (map (\<lambda>line. join (processedParts line) '', '') (promptLines prompt)) '', ''"

text \<open>
  \<^verbatim>\<open>.filter((value, index, self) => self.indexOf(value) === index)\<close> keeps an element
  at the index of its first occurrence.
\<close>

definition firstOccurrences :: "'a list \<Rightarrow> 'a list" where
  "firstOccurrences self =
     map snd (filter (\<lambda>(index, v). indexOf self v = int index) (enumerate 0 self))"

text \<open>
  \<open>tagNamesOf\<close> are the trimmed, lower-cased pieces of the filtered prompt; the
  candidates are these without repetitions and without the empty string.
\<close>

definition tagNamesOf :: "string \<Rightarrow> string list" where
  "tagNamesOf prompt =
     map (\<lambda>tagName. toLowerCase (trim tagName)) (split_str (filteredPrompt prompt) '','')"

definition candidates :: "string \<Rightarrow> string list" where
  "candidates prompt =
     filter (\<lambda>tagName. length tagName > 0) (firstOccurrences (tagNamesOf prompt))"

text \<open>
  \<^verbatim>\<open>existingTags.find((tag) => tag.toLowerCase() === tagName)\<close>, kept when it is
  truthy: the empty string is not.
\<close>

definition existingTag :: "string list \<Rightarrow> string \<Rightarrow> string option" where
  "existingTag existingTags tagName =
     (case find (\<lambda>tag. toLowerCase tag = tagName) existingTags of
        None \<Rightarrow> None
      | Some tag \<Rightarrow> if tag \<noteq> [] then Some tag else None)"

definition promptTags :: "string \<Rightarrow> string list \<Rightarrow> string list" where
  "promptTags prompt existingTags =
     concat (map (\<lambda>tagName. case existingTag existingTags tagName of
                               None \<Rightarrow> [] | Some tag \<Rightarrow> [tag])
                 (candidates prompt))"

subsection \<open>The state of the extension and its environment\<close>

text \<open>
  The item that \<open>importImage\<close> builds, stores under the key \<open>lastSubmittedItem\<close> and
  posts. A property an object does not have is \<open>None\<close>: the object \<^verbatim>\<open>{}\<close> has none.
\<close>

record importItem =
  filename :: "string option"
  url :: "string option"
  imgBase64 :: "string option"
  tagNames :: "string list option"
  pageUrl :: "string option"
  error :: "bool option"

definition emptyObject :: importItem where
  "emptyObject = \<lparr>filename = None, url = None, imgBase64 = None, tagNames = None,
     pageUrl = None, error = None\<rparr>"

text \<open>The requests to the endpoint at \<open>apiUrl\<close>, each with its body.\<close>

datatype request =
  PostImportImage importItem
| PostSetTags "string list" "string option"
| GetTagsList

text \<open>
  The state: the counter \<open>errCount\<close>, what \<open>chrome.storage.local\<close> holds under
  \<open>lastSubmittedItem\<close>, the notifications created so far (the id and \<open>isClickable\<close>,
  in the order of the calls of \<open>chrome.notifications.create\<close>), the badge (background
  colour and text) and the requests sent so far.
\<close>

record extension =
  errCount :: nat
  lastSubmittedItem :: "importItem option"
  notifications :: "(string \<times> bool) list"
  badge :: "(string \<times> string) option"
  requests :: "request list"

text \<open>
  What the network does during one run of a listener. For the source of the image:
  \<open>fetch(url)\<close> rejects, \<open>response.blob()\<close> rejects, the \<open>FileReader\<close> reports an
  error, or it loads the data URL of a blob with a type.
\<close>

datatype imageSource = FetchFails | BlobFails | ReaderFails | Loaded string string

datatype tagsResponse = TagsUnreachable | TagsMalformed | TagsArray "string list"

record world =
  image :: imageSource
  importAccepted :: bool
  setTagsAccepted :: bool
  tagsListing :: tagsResponse

datatype 'a promise = Resolved 'a | Rejected | Pending

text \<open>
  \<^verbatim>\<open>return new Promise(async (resolve, reject) => { const response = await fetch(url); ... })\<close>
  The executor is an async function. When \<open>fetch(url)\<close> or \<open>response.blob()\<close> rejects,
  the promise of the executor rejects, and nothing reads it: neither \<open>resolve\<close> nor
  \<open>reject\<close> is called and the promise that \<open>imageAsBase64\<close> returned stays pending.
  Only \<open>reader.onerror\<close> calls \<open>reject\<close>.
\<close>

definition imageAsBase64 :: "imageSource \<Rightarrow> (string \<times> string) promise" where
  "imageAsBase64 source =
     (case source of
        FetchFails \<Rightarrow> Pending
      | BlobFails \<Rightarrow> Pending
      | ReaderFails \<Rightarrow> Rejected
      | Loaded base64 blobType \<Rightarrow> Resolved (base64, blobType))"

subsection \<open>Numbers\<close>

text \<open>
  \<open>errCount\<close> is a number of the language, a double: \<open>errCount++\<close> adds one exactly
  below \<open>2^53\<close> and leaves \<open>2^53\<close> as it is. A whole number below \<open>10^21\<close> is
  written in decimal digits when it is joined to a string.
\<close>

definition increment :: "nat \<Rightarrow> nat" where
  "increment n = (if n < 2 ^ 53 then n + 1 else n)"

definition digitChar :: "nat \<Rightarrow> char" where
  "digitChar d = ''0123456789'' ! d"

fun numberToString :: "nat \<Rightarrow> string" where
  "numberToString n =
     (if n < 10 then [digitChar n] else numberToString (n div 10) @ [digitChar (n mod 10)])"

declare numberToString.simps [simp del]

text \<open>\<open>xs[i]\<close>, and the string that \<open>undefined\<close> turns into.\<close>

definition at :: "'a list \<Rightarrow> nat \<Rightarrow> 'a option" where
  "at xs i = (if i < length xs then Some (xs ! i) else None)"

definition toString :: "string option \<Rightarrow> string" where
  "toString v = (case v of None \<Rightarrow> ''undefined'' | Some s \<Rightarrow> s)"

subsection \<open>The import request\<close>

text \<open>
  The \<open>catch\<close> block of \<open>importImage\<close>, for the value that the local variable
  \<open>lastSubmittedItem\<close> has when the exception is caught.
\<close>

definition importFailed :: "importItem \<Rightarrow> extension \<Rightarrow> extension" where
  "importFailed lastItem s =
     s\<lparr>notifications :=
         notifications s @ [(''import-error-'' @ numberToString (errCount s), True)],
       errCount := increment (errCount s),
       badge := Some (''rgb(250, 52, 37)'', ''1''),
       lastSubmittedItem := Some (lastItem\<lparr>error := Some True\<rparr>)\<rparr>"

text \<open>
  \<open>importImage\<close>, one call from its start to its end with no other code of the
  extension running in between (the steps of calls that overlap are \<open>resume\<close>
  below). The result is how the promise of the async function ends and the state it
  leaves. \<open>filename.endsWith\<close> throws when the file name is \<open>undefined\<close>; the default
  of \<open>tagNames\<close> is the empty array.
\<close>

definition importImage ::
  "world \<Rightarrow> string option \<Rightarrow> string option \<Rightarrow> string option \<Rightarrow> string list option
     \<Rightarrow> extension \<Rightarrow> unit promise \<times> extension" where
  "importImage w filename' url' pageUrl' tagNames' s =
     (case imageAsBase64 (image w) of
        Pending \<Rightarrow> (Pending, s)
      | Rejected \<Rightarrow> (Resolved (), importFailed emptyObject s)
      | Resolved (base64, blobType) \<Rightarrow>
          (case filename' of
             None \<Rightarrow> (Resolved (), importFailed emptyObject s)
           | Some name \<Rightarrow>
               let extension = at (split_str blobType ''/'') 1;
                   filenameWithExtension =
                     (if endsWith name (toString extension) then name
                      else name @ ''.'' @ toString extension);
                   lastItem = \<lparr>filename = Some filenameWithExtension, url = url',
                     imgBase64 = Some base64,
                     tagNames = Some (case tagNames' of None \<Rightarrow> [] | Some names \<Rightarrow> names),
                     pageUrl = pageUrl', error = Some False\<rparr>;
                   stored = s\<lparr>lastSubmittedItem := Some lastItem,
                     requests := requests s @ [PostImportImage lastItem]\<rparr>
               in if importAccepted w
                  then (Resolved (), stored\<lparr>badge := Some (''rgb(51, 153, 255)'', ''1'')\<rparr>)
                  else (Resolved (), importFailed lastItem stored)))"

subsection \<open>The listeners\<close>

datatype message =
  SetTags "string list"
| GetLastSubmittedItem
| GetTags
| PickedImage string string string string
| OtherMessage

datatype response =
  Answer bool
| LastItem "importItem option"
| TagNames "string list"
| NoAnswer

text \<open>
  \<open>handleMessage\<close>. The fields of \<open>PickedImage\<close> are \<open>src\<close>, \<open>alt\<close>, \<open>pageTitle\<close>
  and \<open>pageUrl\<close>; \<^verbatim>\<open>alt || pageTitle\<close> is the title when \<open>alt\<close> is empty.
\<close>

definition handleMessage :: "world \<Rightarrow> message \<Rightarrow> extension \<Rightarrow> response \<times> extension" where
  "handleMessage w msg s =
     (case msg of
        SetTags names \<Rightarrow>
          (case lastSubmittedItem s of
             None \<Rightarrow> (NoAnswer, s)
           | Some lastItem \<Rightarrow>
               (Answer (setTagsAccepted w),
                s\<lparr>lastSubmittedItem := Some (lastItem\<lparr>tagNames := Some names\<rparr>),
                  requests := requests s @ [PostSetTags names (filename lastItem)]\<rparr>))
      | GetLastSubmittedItem \<Rightarrow> (LastItem (lastSubmittedItem s), s)
      | GetTags \<Rightarrow>
          (TagNames (case tagsListing w of TagsArray names \<Rightarrow> names | _ \<Rightarrow> []),
           s\<lparr>requests := requests s @ [GetTagsList]\<rparr>)
      | PickedImage src alt pageTitle pageUrl' \<Rightarrow>
          (Answer True,
           snd (importImage w (Some (filenameFromUrl src (if alt \<noteq> [] then alt else pageTitle)))
                  (Some src) (Some pageUrl') None s))
      | OtherMessage \<Rightarrow> (NoAnswer, s))"

text \<open>\<open>chrome.contextMenus.onClicked\<close>: \<^verbatim>\<open>props.pageUrl || ''\<close>.\<close>

definition contextMenuClicked ::
  "world \<Rightarrow> string \<Rightarrow> string \<Rightarrow> string option \<Rightarrow> extension \<Rightarrow> extension" where
  "contextMenuClicked w srcUrl title pageUrl' s =
     snd (importImage w (Some (filenameFromUrl srcUrl title)) (Some srcUrl)
            (Some (case pageUrl' of None \<Rightarrow> [] | Some u \<Rightarrow> u)) None s)"

text \<open>
  \<open>chrome.notifications.onClicked\<close>: the listener takes the id of the notification
  and \<open>buttonIndex\<close>, and retries when the id starts with \<open>import-error\<close>,
  \<^verbatim>\<open>buttonIndex === 0\<close> and an item is stored.
\<close>

definition notificationClicked ::
  "world \<Rightarrow> string \<Rightarrow> int option \<Rightarrow> extension \<Rightarrow> extension" where
  "notificationClicked w notificationId buttonIndex s =
     (case lastSubmittedItem s of
        None \<Rightarrow> s
      | Some lastItem \<Rightarrow>
          if startsWith notificationId ''import-error'' \<and> buttonIndex = Some 0
          then snd (importImage w (filename lastItem) (url lastItem) None None s)
          else s)"

text \<open>
  \<open>chrome.runtime.onMessageExternal\<close>. The payload of a \<open>send-allusion-image\<close>
  message holds \<open>src\<close>, \<open>alt\<close>, \<open>pageUrl\<close> and \<open>prompt\<close>; \<open>tabTitle\<close> is
  \<^verbatim>\<open>sender.tab?.title\<close>. The listing of the tags is awaited with no \<open>catch\<close>: when it
  fails, the promise of the listener rejects before \<open>importImage\<close> is called.
\<close>

datatype externalMessage =
  SendAllusionImage string string "string option" "string option"
| OtherExternal

definition onMessageExternal ::
  "world \<Rightarrow> externalMessage \<Rightarrow> string option \<Rightarrow> extension \<Rightarrow> unit promise \<times> extension" where
  "onMessageExternal w message tabTitle s =
     (case message of
        OtherExternal \<Rightarrow> (Resolved (), s)
      | SendAllusionImage src alt pageUrl' prompt \<Rightarrow>
          let filename' = filenameFromUrl src
                (case tabTitle of None \<Rightarrow> alt | Some title \<Rightarrow> if title \<noteq> [] then title else alt);
              asked = s\<lparr>requests := requests s @ [GetTagsList]\<rparr>
          in (case tagsListing w of
                TagsArray existingTags \<Rightarrow>
                  let promptTags' =
                        (case prompt of
                           None \<Rightarrow> []
                         | Some p \<Rightarrow> if p \<noteq> [] then promptTags p existingTags else [])
                  in (Resolved (),
                      snd (importImage w (Some filename') (Some src)
                             (Some (case pageUrl' of None \<Rightarrow> [] | Some u \<Rightarrow> u))
                             (Some promptTags') asked))
              | _ \<Rightarrow> (Rejected, asked)))"

subsection \<open>Runs of the extension\<close>

text \<open>
  The background script starts with \<open>errCount = 0\<close> and whatever the storage holds.
  When the browser loads the script again, \<open>let errCount = 0\<close> runs again; the storage
  and the notifications created so far stay.
\<close>

definition initial :: "importItem option \<Rightarrow> extension" where
  "initial stored = \<lparr>errCount = 0, lastSubmittedItem = stored, notifications = [],
     badge = None, requests = []\<rparr>"


text \<open>
  The listeners call \<open>importImage\<close> without \<open>await\<close>, and an async function gives the
  control back at each \<open>await\<close> of the network: other listeners and other imports run
  in between. The code between two such points runs as one step. A task is an async
  function that waits: \<open>importImage\<close> at \<^verbatim>\<open>await imageAsBase64(url)\<close>, with its four
  arguments; \<open>importImage\<close> at \<^verbatim>\<open>await fetch(`${apiUrl}/import-image`, ...)\<close>, with its
  local variable \<open>lastSubmittedItem\<close>; the listener for external messages at the
  \<open>await\<close> of the tags, with \<open>filename\<close>, \<open>src\<close>, \<open>pageUrl\<close> and \<open>prompt\<close>.
\<close>

datatype task =
  AwaitImage "string option" "string option" "string option" "string list option"
| AwaitImport importItem
| AwaitTags string string string "string option"

text \<open>
  \<open>resume\<close> runs a task from the point where it waits to its next such point, in the
  world that settles the promise it waits for. It gives how the promise of the async
  function stands then, the tasks that wait now, and the state. A promise that never
  settles leaves the task as it is.
\<close>

definition resume :: "world \<Rightarrow> task \<Rightarrow> extension \<Rightarrow> unit promise \<times> task list \<times> extension" where
  "resume w t s =
     (case t of
        AwaitImage filename' url' pageUrl' tagNames' \<Rightarrow>
          (case imageAsBase64 (image w) of
             Pending \<Rightarrow> (Pending, [t], s)
           | Rejected \<Rightarrow> (Resolved (), [], importFailed emptyObject s)
           | Resolved (base64, blobType) \<Rightarrow>
               (case filename' of
                  None \<Rightarrow> (Resolved (), [], importFailed emptyObject s)
                | Some name \<Rightarrow>
                    let extension = at (split_str blobType ''/'') 1;
                        filenameWithExtension =
                          (if endsWith name (toString extension) then name
                           else name @ ''.'' @ toString extension);
                        lastItem = \<lparr>filename = Some filenameWithExtension, url = url',
                          imgBase64 = Some base64,
                          tagNames = Some (case tagNames' of None \<Rightarrow> [] | Some names \<Rightarrow> names),
                          pageUrl = pageUrl', error = Some False\<rparr>
                    in (Pending, [AwaitImport lastItem],
                        s\<lparr>lastSubmittedItem := Some lastItem,
                          requests := requests s @ [PostImportImage lastItem]\<rparr>)))
      | AwaitImport lastItem \<Rightarrow>
          if importAccepted w
          then (Resolved (), [], s\<lparr>badge := Some (''rgb(51, 153, 255)'', ''1'')\<rparr>)
          else (Resolved (), [], importFailed lastItem s)
      | AwaitTags filename' src pageUrl' prompt \<Rightarrow>
          (case tagsListing w of
             TagsArray existingTags \<Rightarrow>
               let promptTags' =
                     (case prompt of
                        None \<Rightarrow> []
                      | Some p \<Rightarrow> if p \<noteq> [] then promptTags p existingTags else [])
               in (Resolved (),
                   [AwaitImage (Some filename') (Some src) (Some pageUrl') (Some promptTags')], s)
           | _ \<Rightarrow> (Rejected, [], s)))"

text \<open>
  An event is a call of a listener by the browser, or the settling of the promise
  that the task at an index waits for. \<open>listen\<close> runs a listener up to the point where
  it waits for the network: the tasks it leaves and the state.
\<close>

datatype event =
  ContextMenu string string "string option"
| Message message
| External externalMessage "string option"
| NotificationClick string "int option"
| Settle nat

definition listen :: "world \<Rightarrow> event \<Rightarrow> extension \<Rightarrow> task list \<times> extension" where
  "listen w e s =
     (case e of
        ContextMenu srcUrl title pageUrl' \<Rightarrow>
          ([AwaitImage (Some (filenameFromUrl srcUrl title)) (Some srcUrl)
              (Some (case pageUrl' of None \<Rightarrow> [] | Some u \<Rightarrow> u)) None], s)
      | Message msg \<Rightarrow>
          (case msg of
             PickedImage src alt pageTitle pageUrl' \<Rightarrow>
               ([AwaitImage (Some (filenameFromUrl src (if alt \<noteq> [] then alt else pageTitle)))
                   (Some src) (Some pageUrl') None], s)
           | _ \<Rightarrow> ([], snd (handleMessage w msg s)))
      | External message tabTitle \<Rightarrow>
          (case message of
             OtherExternal \<Rightarrow> ([], s)
           | SendAllusionImage src alt pageUrl' prompt \<Rightarrow>
               ([AwaitTags
                   (filenameFromUrl src
                      (case tabTitle of
                         None \<Rightarrow> alt
                       | Some title \<Rightarrow> if title \<noteq> [] then title else alt))
                   src (case pageUrl' of None \<Rightarrow> [] | Some u \<Rightarrow> u) prompt],
                s\<lparr>requests := requests s @ [GetTagsList]\<rparr>))
      | NotificationClick notificationId buttonIndex \<Rightarrow>
          (case lastSubmittedItem s of
             None \<Rightarrow> ([], s)
           | Some lastItem \<Rightarrow>
               if startsWith notificationId ''import-error'' \<and> buttonIndex = Some 0
               then ([AwaitImage (filename lastItem) (url lastItem) None None], s)
               else ([], s))
      | Settle i \<Rightarrow> ([], s))"

text \<open>One step of the extension: the tasks that wait, and the state.\<close>

definition step ::
  "world \<Rightarrow> event \<Rightarrow> task list \<times> extension \<Rightarrow> task list \<times> extension" where
  "step w e c =
     (case e of
        Settle i \<Rightarrow>
          if i < length (fst c)
          then (take i (fst c) @ fst (snd (resume w (fst c ! i) (snd c))) @ drop (Suc i) (fst c),
                snd (snd (resume w (fst c ! i) (snd c))))
          else c
      | _ \<Rightarrow> (fst c @ fst (listen w e (snd c)), snd (listen w e (snd c))))"


subsection \<open>The keys of the notifications\<close>



subsection \<open>A world and states for the examples\<close>

text \<open>
  The image loads as a PNG, the desktop application is not running: the requests to
  the endpoint fail.
\<close>

definition appClosed :: world where
  "appClosed = \<lparr>image = Loaded ''data:image/png;base64,AAAA'' ''image/png'',
     importAccepted = False, setTagsAccepted = False, tagsListing = TagsUnreachable\<rparr>"

text \<open>The item that is built for the image of a page, picked from the context menu.\<close>

definition photo :: importItem where
  "photo = \<lparr>filename = Some ''photo.png'', url = Some ''https://x.com/a/photo.jpg'',
     imgBase64 = Some ''data:image/png;base64,AAAA'', tagNames = Some [],
     pageUrl = Some ''https://x.com/a'', error = Some False\<rparr>"

text \<open>The state after the import of that image has failed in that world.\<close>

definition afterFailure :: extension where
  "afterFailure =
     \<lparr>errCount = 1, lastSubmittedItem = Some (photo\<lparr>error := Some True\<rparr>),
      notifications = [(''import-error-0'', True)],
      badge = Some (''rgb(250, 52, 37)'', ''1''),
      requests = [PostImportImage photo]\<rparr>"


subsection \<open>The pieces of a string\<close>

text \<open>The trimmed pieces of a string that is split at its commas.\<close>

definition pieces :: "string \<Rightarrow> string set" where
  "pieces s = trim ` set (split_str s '','')"

text \<open>The text behind the last occurrence of a character: the last element of a split.\<close>

definition afterLast :: "char \<Rightarrow> string \<Rightarrow> string" where
  "afterLast c s = rev (takeWhile (\<lambda>x. x \<noteq> c) (rev s))"

section \<open>Properties\<close>

subsection \<open>Splitting at one character\<close>

lemma split_by_not_Nil: "split_by m s \<noteq> []"
  by (induction m s rule: split_by.induct) (auto split: list.splits)

lemma split_str_not_Nil: "split_str s sep \<noteq> []"
  by (simp add: split_str_def split_by_not_Nil)

lemma split_str_Nil: "split_str [] sep = [[]]"
  by (simp add: split_str_def)

lemma split_str_char_Cons:
  "split_str (x # xs) [c] =
     (if x = c then [] # split_str xs [c]
      else (x # hd (split_str xs [c])) # tl (split_str xs [c]))"
  using split_by_not_Nil [of "literal [c]" xs]
  by (auto simp: split_str_def literal_def split: list.splits)


lemma split_str_char_notin: "c \<notin> set s \<Longrightarrow> split_str s [c] = [s]"
  by (induction s) (auto simp: split_str_Nil split_str_char_Cons)


lemma afterLast_notin: "c \<notin> set s \<Longrightarrow> afterLast c s = s"
proof -
  assume "c \<notin> set s"
  then have h: "takeWhile (\<lambda>x. x \<noteq> c) (rev s) = rev s"
    by (intro takeWhile_eq_all_conv [THEN iffD2]) auto
  show ?thesis unfolding afterLast_def h by simp
qed






subsection \<open>File name of an image\<close>




subsection \<open>Permutations\<close>

lemma mset_remove_nth:
  "i < length xs \<Longrightarrow> mset (take i xs @ drop (Suc i) xs) = mset xs - {#xs ! i#}"
proof -
  assume "i < length xs"
  then have "xs = take i xs @ xs ! i # drop (Suc i) xs" by (rule id_take_nth_drop)
  then have "mset xs = add_mset (xs ! i) (mset (take i xs @ drop (Suc i) xs))"
    by (metis mset.simps(2) mset_append union_mset_add_mset_right)
  then show ?thesis by simp
qed

lemma permute_short: "length arr \<le> 1 \<Longrightarrow> permute arr = [arr]"
  by (simp add: permute.simps)

lemma permute_long:
  "\<not> length arr \<le> 1 \<Longrightarrow>
     permute arr = concat (map (\<lambda>i. map (\<lambda>perm. arr ! i # perm)
                                (permute (take i arr @ drop (Suc i) arr))) [0..<length arr])"
  by (subst permute.simps) simp

lemma mset_short: "length xs \<le> 1 \<Longrightarrow> mset p = mset xs \<Longrightarrow> p = xs"
  by (cases xs) (auto simp: mset_single_iff_right dest: mset_eq_length)

lemma set_permute: "set (permute arr) = {p. mset p = mset arr}"
proof (induction arr rule: permute.induct)
  case (1 arr)
  show ?case
  proof (cases "length arr \<le> 1")
    case True
    have "p = arr" if "mset p = mset arr" for p
      using True that by (rule mset_short)
    with True show ?thesis by (auto simp: permute_short)
  next
    case False
    have IH: "set (permute (take i arr @ drop (Suc i) arr)) = {p. mset p = mset arr - {#arr ! i#}}"
      if "i < length arr" for i
      using "1.IH" [OF False, of i] that
      by (simp only: mset_remove_nth set_upt atLeastLessThan_iff) simp
    show ?thesis
    proof (intro set_eqI iffI)
      fix p assume "p \<in> set (permute arr)"
      then obtain i q where i: "i < length arr"
        and q: "q \<in> set (permute (take i arr @ drop (Suc i) arr))" and p: "p = arr ! i # q"
        by (auto simp: permute_long [OF False])
      from q i have "mset q = mset arr - {#arr ! i#}" by (simp add: IH)
      with i p show "p \<in> {p. mset p = mset arr}" by simp
    next
      fix p assume "p \<in> {p. mset p = mset arr}"
      then have m: "mset p = mset arr" by simp
      with False have "p \<noteq> []" by auto
      then obtain a q where p: "p = a # q" by (cases p) auto
      with m have "a \<in> set arr" by (metis list.set_intros(1) mset_eq_setD)
      then obtain i where i: "i < length arr" and a: "arr ! i = a"
        by (auto simp: in_set_conv_nth)
      from m p a have "mset q = mset arr - {#arr ! i#}"
        by (metis add_mset_remove_trivial mset.simps(2))
      with i have "q \<in> set (permute (take i arr @ drop (Suc i) arr))" by (simp add: IH)
      with i a p show "p \<in> set (permute arr)"
        by (auto simp: permute_long [OF False])
    qed
  qed
qed

subsection \<open>Replacing the first occurrence\<close>

lemma replace_first_absent: "\<not> sublist pat s \<Longrightarrow> replace_first s pat rep = s"
proof (induction s)
  case Nil
  then show ?case by auto
next
  case (Cons c cs)
  then have "\<not> prefix pat (c # cs)" "\<not> sublist pat cs"
    by (auto simp: sublist_Cons_right)
  with Cons show ?case by simp
qed

lemma replace_first_at:
  "\<forall>k<length a. \<not> prefix pat (drop k (a @ pat @ b)) \<Longrightarrow>
     replace_first (a @ pat @ b) pat rep = a @ rep @ b"
proof (induction a)
  case Nil
  show ?case
  proof (cases "pat @ b")
    case Nil
    then show ?thesis by simp
  next
    case (Cons c cs)
    have "prefix pat (c # cs)" unfolding Cons [symmetric] by simp
    moreover have "drop (length pat) (c # cs) = b" unfolding Cons [symmetric] by simp
    ultimately have "replace_first (c # cs) pat rep = rep @ b" by simp
    then show ?thesis by (simp add: Cons)
  qed
next
  case (Cons x a)
  from Cons.prems have "\<not> prefix pat ((x # a) @ pat @ b)"
    by (metis drop0 length_greater_0_conv list.discI)
  moreover from Cons.prems have "\<forall>k<length a. \<not> prefix pat (drop k (a @ pat @ b))"
    by (metis Suc_less_eq append_Cons drop_Suc_Cons length_Cons)
  ultimately show ?case using Cons.IH by simp
qed

lemma trim_prefix: "prefix (trim s) (dropWhile isWhiteSpace s)"
proof -
  let ?d = "dropWhile isWhiteSpace s"
  have "rev ?d = takeWhile isWhiteSpace (rev ?d) @ dropWhile isWhiteSpace (rev ?d)" by simp
  then have "?d = rev (dropWhile isWhiteSpace (rev ?d)) @ rev (takeWhile isWhiteSpace (rev ?d))"
    by (metis rev_append rev_rev_ident)
  then show ?thesis unfolding trim_def by (metis prefixI)
qed

lemma replace_first_marker:
  assumes "startsWith (trim line) ''#!allusion ''"
  shows "replace_first line ''#!allusion '' [] =
           takeWhile isWhiteSpace line @ drop 11 (dropWhile isWhiteSpace line)"
proof -
  let ?m = "''#!allusion ''"
  let ?a = "takeWhile isWhiteSpace line"
  from assms trim_prefix [of line] have "prefix ?m (dropWhile isWhiteSpace line)"
    unfolding startsWith_def by (rule prefix_order.trans)
  then obtain b where b: "dropWhile isWhiteSpace line = ?m @ b" by (auto simp: prefix_def)
  have line: "line = ?a @ ?m @ b" using b by (metis takeWhile_dropWhile_id)
  have "\<not> prefix ?m (drop k (?a @ ?m @ b))" if "k < length ?a" for k
  proof -
    from that have "isWhiteSpace (?a ! k)" by (metis nth_mem set_takeWhileD)
    moreover from that have "drop k (?a @ ?m @ b) = ?a ! k # drop (Suc k) ?a @ ?m @ b"
      by (simp add: Cons_nth_drop_Suc)
    ultimately show ?thesis by (auto simp: isWhiteSpace_def)
  qed
  then have "replace_first (?a @ ?m @ b) ?m [] = ?a @ [] @ b"
    by (intro replace_first_at) blast
  with line b show ?thesis by simp
qed

subsection \<open>The lines of a prompt\<close>

text \<open>
  Claim C4, as the code has it. The first step of the parser keeps the lines of the
  prompt in their order, without those whose trimmed form starts with \<open>#\<close> and not
  with the marker \<^verbatim>\<open>#!allusion \<close>. From every line it keeps it removes the first
  occurrence of the marker, wherever it stands: for a line whose trimmed form starts
  with the marker that is the line without the marker, its leading white space kept;
  a line that does not hold the marker is unchanged.
\<close>

theorem promptLines_first_marker:
  "promptLines prompt =
     map (\<lambda>line. replace_first line ''#!allusion '' [])
       (filter (\<lambda>line. \<not> (startsWith (trim line) ''#''
                              \<and> \<not> startsWith (trim line) ''#!allusion ''))
          (split_str prompt [CHR 0x0A]))
   \<and> (startsWith (trim line) ''#!allusion '' \<longrightarrow>
        replace_first line ''#!allusion '' [] =
          takeWhile isWhiteSpace line @ drop 11 (dropWhile isWhiteSpace line))
   \<and> ((\<forall>k<length a. \<not> prefix ''#!allusion '' (drop k (a @ ''#!allusion '' @ b))) \<longrightarrow>
        replace_first (a @ ''#!allusion '' @ b) ''#!allusion '' [] = a @ b)
   \<and> (\<not> sublist ''#!allusion '' line \<longrightarrow> replace_first line ''#!allusion '' [] = line)"
proof -
  have "keepLine = (\<lambda>line. \<not> (startsWith (trim line) ''#''
                              \<and> \<not> startsWith (trim line) ''#!allusion ''))"
    by (auto simp: keepLine_def fun_eq_iff)
  then have "promptLines prompt =
     map (\<lambda>line. replace_first line ''#!allusion '' [])
       (filter (\<lambda>line. \<not> (startsWith (trim line) ''#''
                              \<and> \<not> startsWith (trim line) ''#!allusion ''))
          (split_str prompt [CHR 0x0A]))"
    by (simp add: promptLines_def)
  moreover have "(\<forall>k<length a. \<not> prefix ''#!allusion '' (drop k (a @ ''#!allusion '' @ b))) \<longrightarrow>
        replace_first (a @ ''#!allusion '' @ b) ''#!allusion '' [] = a @ b"
    using replace_first_at [of a "''#!allusion ''" b "[]"] by simp
  ultimately show ?thesis
    using replace_first_marker [of line] replace_first_absent [of "''#!allusion ''" line "[]"]
    by blast
qed

theorem promptLines_first_marker_witness:
  "promptLines ''cat, (cute, fluffy:1.2)\<newline>#comment\<newline> #!allusion extra\<newline>a #!allusion b''
     = [''cat, (cute, fluffy:1.2)'', '' extra'', ''a b'']
   \<and> startsWith (trim '' #!allusion extra'') ''#!allusion ''
   \<and> replace_first '' #!allusion extra'' ''#!allusion '' [] = '' extra''
   \<and> replace_first ''a #!allusion b'' ''#!allusion '' [] = ''a b''
   \<and> \<not> sublist ''#!allusion '' ''cat''
   \<and> replace_first ''cat'' ''#!allusion '' [] = ''cat''"
proof -
  let ?prompt = "''cat, (cute, fluffy:1.2)\<newline>#comment\<newline> #!allusion extra\<newline>a #!allusion b''"
  note inst = promptLines_first_marker [of ?prompt "'' #!allusion extra''" "''a ''" "''b''"]
  note inst' = promptLines_first_marker [of ?prompt "''cat''" "''a ''" "''b''"]
  have s: "startsWith (trim '' #!allusion extra'') ''#!allusion ''"
    by (simp add: startsWith_def trim_def isWhiteSpace_def)
  have n: "\<not> sublist ''#!allusion '' ''cat''"
    by (simp add: sublist_Cons_right)
  have f: "\<forall>k<length ''a ''. \<not> prefix ''#!allusion '' (drop k (''a '' @ ''#!allusion '' @ ''b''))"
    by (simp add: less_Suc_eq)
  have l: "split_str ?prompt ''\<newline>''
     = [''cat, (cute, fluffy:1.2)'', ''#comment'', '' #!allusion extra'', ''a #!allusion b'']"
    by (simp add: split_str_def literal_def)
  from inst have "promptLines ?prompt =
     map (\<lambda>line. replace_first line ''#!allusion '' [])
       (filter (\<lambda>line. \<not> (startsWith (trim line) ''#''
                              \<and> \<not> startsWith (trim line) ''#!allusion ''))
          (split_str ?prompt ''\<newline>''))"
    by blast
  then have 1: "promptLines ?prompt = [''cat, (cute, fluffy:1.2)'', '' extra'', ''a b'']"
    unfolding l by (simp add: startsWith_def trim_def isWhiteSpace_def)
  from inst s have "replace_first '' #!allusion extra'' ''#!allusion '' [] =
          takeWhile isWhiteSpace '' #!allusion extra''
            @ drop 11 (dropWhile isWhiteSpace '' #!allusion extra'')"
    by blast
  then have 2: "replace_first '' #!allusion extra'' ''#!allusion '' [] = '' extra''"
    by (simp add: isWhiteSpace_def)
  from inst f have "replace_first (''a '' @ ''#!allusion '' @ ''b'') ''#!allusion '' [] = ''a '' @ ''b''"
    by blast
  then have 3: "replace_first ''a #!allusion b'' ''#!allusion '' [] = ''a b''"
    by simp
  from inst' n have 4: "replace_first ''cat'' ''#!allusion '' [] = ''cat''"
    by blast
  from 1 s 2 3 n 4 show ?thesis by blast
qed

text \<open>
  The claim as it is written fails: a line that is kept and does not start with the
  marker loses a marker that stands inside it.
\<close>

theorem promptLines_counterexample:
  "\<not> startsWith (trim ''a #!allusion b'') ''#''
   \<and> promptLines ''a #!allusion b'' = [''a b'']"
  by (simp add: promptLines_def keepLine_def split_str_def literal_def startsWith_def
      trim_def isWhiteSpace_def)

subsection \<open>Soundness and uniqueness of the tag names\<close>

lemma existingTag_Some:
  "existingTag existingTags tagName = Some tag \<Longrightarrow>
     tag \<in> set existingTags \<and> toLowerCase tag = tagName \<and> tag \<noteq> []
     \<and> find (\<lambda>t. toLowerCase t = tagName) existingTags = Some tag"
  by (auto simp: existingTag_def find_Some_iff split: option.splits if_splits)

lemma promptTags_mem:
  "tag \<in> set (promptTags prompt existingTags) \<longleftrightarrow>
     (\<exists>c \<in> set (candidates prompt). existingTag existingTags c = Some tag)"
  by (force simp: promptTags_def split: option.splits)

text \<open>
  Claim C1. Every tag that the parser returns is a name of the existing tags; its
  lower-case form is a candidate of the prompt, and it is the form of that name that
  the existing tags hold: the first of them whose lower-case form is the candidate.
\<close>

theorem promptTags_sound:
  "\<forall>tag \<in> set (promptTags prompt existingTags).
     tag \<in> set existingTags
     \<and> toLowerCase tag \<in> set (candidates prompt)
     \<and> find (\<lambda>t. toLowerCase t = toLowerCase tag) existingTags = Some tag"
  using existingTag_Some by (fastforce simp: promptTags_mem)

theorem promptTags_sound_witness:
  "promptTags ''cat, dog'' [''Cat'', ''cat''] = [''Cat'']
   \<and> ''Cat'' \<in> set [''Cat'', ''cat'']
   \<and> toLowerCase ''Cat'' \<in> set (candidates ''cat, dog'')
   \<and> find (\<lambda>t. toLowerCase t = toLowerCase ''Cat'') [''Cat'', ''cat''] = Some ''Cat''"
proof -
  have e: "promptTags ''cat, dog'' [''Cat'', ''cat''] = [''Cat'']"
    by code_simp
  then have "''Cat'' \<in> set (promptTags ''cat, dog'' [''Cat'', ''cat''])" by simp
  with promptTags_sound [of "''cat, dog''" "[''Cat'', ''cat'']"] e show ?thesis by blast
qed

lemma enumerate_sorted: "sorted_wrt (\<lambda>p q. fst p < fst q) (enumerate n xs)"
proof -
  have "sorted_wrt (\<lambda>p q. fst p < fst q) (enumerate n xs) =
        sorted_wrt (<) (map fst (enumerate n xs))"
    by (simp only: sorted_wrt_map)
  then show ?thesis by simp
qed

lemma sorted_wrt_neq_distinct: "sorted_wrt (\<noteq>) xs \<Longrightarrow> distinct xs"
  by (induction xs) auto

lemma firstOccurrences_sorted:
  "sorted_wrt (\<lambda>a b. 0 \<le> indexOf xs a \<and> indexOf xs a < indexOf xs b) (firstOccurrences xs)"
proof -
  let ?P = "\<lambda>(index, v). indexOf xs v = int index"
  have "sorted_wrt (\<lambda>p q. fst p < fst q) (filter ?P (enumerate 0 xs))"
    by (rule sorted_wrt_filter) (rule enumerate_sorted)
  then have "sorted_wrt (\<lambda>p q. 0 \<le> indexOf xs (snd p) \<and> indexOf xs (snd p) < indexOf xs (snd q))
               (filter ?P (enumerate 0 xs))"
    by (rule sorted_wrt_mono_rel [rotated]) auto
  then show ?thesis by (simp add: firstOccurrences_def sorted_wrt_map)
qed

lemma promptTags_lower:
  "map toLowerCase (promptTags prompt existingTags) =
     filter (\<lambda>c. existingTag existingTags c \<noteq> None) (candidates prompt)"
proof -
  have "map toLowerCase (concat (map (\<lambda>tagName. case existingTag existingTags tagName of
                               None \<Rightarrow> [] | Some tag \<Rightarrow> [tag]) cs)) =
        filter (\<lambda>c. existingTag existingTags c \<noteq> None) cs" for cs
    by (induction cs) (auto dest: existingTag_Some split: option.splits)
  then show ?thesis by (simp add: promptTags_def)
qed

lemma candidates_sorted:
  "sorted_wrt (\<lambda>a b. 0 \<le> indexOf (tagNamesOf prompt) a
        \<and> indexOf (tagNamesOf prompt) a < indexOf (tagNamesOf prompt) b) (candidates prompt)"
  unfolding candidates_def by (rule sorted_wrt_filter) (rule firstOccurrences_sorted)

text \<open>
  Claim C2. No two tags that the parser returns are equal when they are compared in
  lower case, and the tags come in the order in which their lower-case forms first
  occur among the trimmed, lower-cased pieces of the filtered prompt: the index of the
  first occurrence grows strictly along the result.
\<close>

theorem promptTags_unique:
  "distinct (map toLowerCase (promptTags prompt existingTags))
   \<and> sorted_wrt (\<lambda>a b. 0 \<le> indexOf (tagNamesOf prompt) (toLowerCase a)
        \<and> indexOf (tagNamesOf prompt) (toLowerCase a) < indexOf (tagNamesOf prompt) (toLowerCase b))
       (promptTags prompt existingTags)"
proof -
  let ?R = "\<lambda>a b. 0 \<le> indexOf (tagNamesOf prompt) a
        \<and> indexOf (tagNamesOf prompt) a < indexOf (tagNamesOf prompt) b"
  have s: "sorted_wrt ?R (map toLowerCase (promptTags prompt existingTags))"
    unfolding promptTags_lower by (rule sorted_wrt_filter) (rule candidates_sorted)
  have "sorted_wrt (\<noteq>) (map toLowerCase (promptTags prompt existingTags))"
    by (rule sorted_wrt_mono_rel [OF _ s]) auto
  then have "distinct (map toLowerCase (promptTags prompt existingTags))"
    by (rule sorted_wrt_neq_distinct)
  with s show ?thesis by (simp add: sorted_wrt_map)
qed

theorem promptTags_unique_witness:
  "promptTags ''b, a, B , A, b'' [''A'', ''a'', ''b'', ''B''] = [''b'', ''A'']
   \<and> tagNamesOf ''b, a, B , A, b'' = [''b'', ''a'', ''b'', ''a'', ''b'']
   \<and> distinct (map toLowerCase [''b'', ''A''])
   \<and> indexOf [''b'', ''a'', ''b'', ''a'', ''b''] (toLowerCase ''b'')
       < indexOf [''b'', ''a'', ''b'', ''a'', ''b''] (toLowerCase ''A'')"
proof -
  have e: "promptTags ''b, a, B , A, b'' [''A'', ''a'', ''b'', ''B''] = [''b'', ''A'']"
    by code_simp
  have t: "tagNamesOf ''b, a, B , A, b'' = [''b'', ''a'', ''b'', ''a'', ''b'']"
    by code_simp
  from promptTags_unique [of "''b, a, B , A, b''" "[''A'', ''a'', ''b'', ''B'']"]
  show ?thesis unfolding e t by simp
qed


subsection \<open>From the processed parts to the candidates\<close>

lemma split_str_append:
  "split_str (a @ c # b) [c] = split_str a [c] @ split_str b [c]"
proof (induction a)
  case Nil
  show ?case by (simp add: split_str_Nil split_str_char_Cons)
next
  case (Cons x a)
  show ?case
  proof (cases "x = c")
    case True
    with Cons show ?thesis by (simp add: split_str_char_Cons)
  next
    case False
    with Cons split_str_not_Nil [of a "[c]"] show ?thesis
      by (simp add: split_str_char_Cons)
  qed
qed

lemma split_str_subset: "w \<in> set (split_str s [c]) \<Longrightarrow> set w \<subseteq> set s"
proof (induction s arbitrary: w)
  case Nil
  then show ?case by (simp add: split_str_Nil)
next
  case (Cons x s)
  have h: "hd (split_str s [c]) \<in> set (split_str s [c])"
    by (simp add: split_str_not_Nil)
  have t: "set (tl (split_str s [c])) \<subseteq> set (split_str s [c])"
    by (metis list.set_sel(2) split_str_not_Nil subsetI)
  from Cons.prems consider "w = []" | "w \<in> set (split_str s [c])"
    | "w = x # hd (split_str s [c])"
    using t by (auto simp: split_str_char_Cons split: if_splits)
  then show ?case
  proof cases
    case 1
    then show ?thesis by simp
  next
    case 2
    with Cons.IH show ?thesis by auto
  next
    case 3
    with Cons.IH [OF h] show ?thesis by auto
  qed
qed

lemma trim_space: "trim (CHR '' '' # s) = trim s"
  by (simp add: trim_def isWhiteSpace_def)

lemma pieces_comma: "pieces (a @ CHR '','' # b) = pieces a \<union> pieces b"
  by (simp add: pieces_def split_str_append image_Un)

lemma pieces_space: "pieces (CHR '' '' # s) = pieces s"
proof -
  have "split_str s '','' = hd (split_str s '','') # tl (split_str s '','')"
    by (simp add: split_str_not_Nil)
  then have "set (split_str s '','') = insert (hd (split_str s '','')) (set (tl (split_str s '','')))"
    by (metis list.simps(15))
  then show ?thesis
    by (simp add: pieces_def split_str_char_Cons trim_space)
qed

lemma pieces_join: "xs \<noteq> [] \<Longrightarrow> pieces (join xs '', '') = (\<Union>x\<in>set xs. pieces x)"
proof (induction xs "'', ''" rule: join.induct)
  case 1
  then show ?case by simp
next
  case (2 x)
  show ?case by simp
next
  case (3 x y ys)
  then have "pieces (join (y # ys) '', '') = (\<Union>x\<in>set (y # ys). pieces x)" by simp
  then show ?case by (simp add: pieces_comma pieces_space)
qed

lemma pieces_plain: "CHR '','' \<notin> set x \<Longrightarrow> pieces x = {trim x}"
  by (simp add: pieces_def split_str_char_notin)

lemma tagNamesOf_set: "set (tagNamesOf prompt) = toLowerCase ` pieces (filteredPrompt prompt)"
  by (auto simp: tagNamesOf_def pieces_def)

lemma processed_pieces:
  assumes "line \<in> set (promptLines prompt)" and "x \<in> set (processedParts line)"
  shows "pieces x \<subseteq> pieces (filteredPrompt prompt)"
proof -
  from assms(2) have "processedParts line \<noteq> []" by auto
  then have "pieces (join (processedParts line) '', '') = (\<Union>x\<in>set (processedParts line). pieces x)"
    by (rule pieces_join)
  with assms(2) have 1: "pieces x \<subseteq> pieces (join (processedParts line) '', '')" by auto
  from assms(1) have "map (\<lambda>line. join (processedParts line) '', '') (promptLines prompt) \<noteq> []"
    by auto
  then have "pieces (filteredPrompt prompt) =
      (\<Union>y\<in>set (map (\<lambda>line. join (processedParts line) '', '') (promptLines prompt)). pieces y)"
    unfolding filteredPrompt_def by (rule pieces_join)
  with assms(1) have "pieces (join (processedParts line) '', '') \<subseteq> pieces (filteredPrompt prompt)"
    by auto
  with 1 show ?thesis by blast
qed

lemma indexOf_first: "v \<in> set xs \<Longrightarrow> \<exists>i<length xs. indexOf xs v = int i \<and> xs ! i = v"
proof (induction xs)
  case Nil
  then show ?case by simp
next
  case (Cons x xs)
  show ?case
  proof (cases "x = v")
    case True
    then show ?thesis by auto
  next
    case False
    with Cons obtain i where "i < length xs" "indexOf xs v = int i" "xs ! i = v" by auto
    with False show ?thesis by (auto simp: Let_def intro!: exI [of _ "Suc i"])
  qed
qed

lemma firstOccurrences_set: "set (firstOccurrences xs) = set xs"
proof (intro set_eqI iffI)
  fix v assume "v \<in> set (firstOccurrences xs)"
  then have "v \<in> snd ` set (filter (\<lambda>(index, v). indexOf xs v = int index) (enumerate 0 xs))"
    unfolding firstOccurrences_def by (simp only: set_map)
  then obtain p where "p \<in> set (filter (\<lambda>(index, v). indexOf xs v = int index) (enumerate 0 xs))"
    and v: "v = snd p" by (rule imageE)
  then have p: "p \<in> set (enumerate 0 xs)" by (simp only: set_filter mem_Collect_eq)
  from p have "fst p < length xs" "xs ! fst p = snd p"
    by (simp_all add: in_set_enumerate_eq)
  then have "snd p \<in> set xs" by (metis nth_mem)
  with v show "v \<in> set xs" by simp
next
  fix v assume "v \<in> set xs"
  from indexOf_first [OF this]
  obtain i where i: "i < length xs" "indexOf xs v = int i" "xs ! i = v"
    by (elim exE conjE)
  then have "(i, v) \<in> set (enumerate 0 xs)"
    by (simp add: in_set_enumerate_eq)
  with i(2) have "(i, v) \<in> set (filter (\<lambda>(index, v). indexOf xs v = int index) (enumerate 0 xs))"
    by (simp only: set_filter mem_Collect_eq case_prod_conv simp_thms)
  then have "snd (i, v) \<in> snd ` set (filter (\<lambda>(index, v). indexOf xs v = int index) (enumerate 0 xs))"
    by (rule imageI)
  then show "v \<in> set (firstOccurrences xs)"
    unfolding firstOccurrences_def by (simp only: set_map snd_conv)
qed

lemma candidates_set: "set (candidates prompt) = {t \<in> set (tagNamesOf prompt). t \<noteq> []}"
  unfolding candidates_def set_filter firstOccurrences_set by simp

lemma join_subset: "w \<in> set xs \<Longrightarrow> set w \<subseteq> set (join xs sep)"
  by (induction xs sep rule: join.induct) auto

lemma set_join: "set (join xs sep) \<subseteq> (\<Union>x\<in>set xs. set x) \<union> set sep"
  by (induction xs sep rule: join.induct) auto

lemma trim_subset: "set (trim s) \<subseteq> set s"
proof -
  have "set (trim s) \<subseteq> set (dropWhile isWhiteSpace s)"
    using trim_prefix [of s] by (rule set_mono_prefix)
  then show ?thesis by (meson set_dropWhileD subset_iff)
qed

lemma dropWhile_keeps: "c \<in> set s \<Longrightarrow> \<not> P c \<Longrightarrow> c \<in> set (dropWhile P s)"
  by (induction s) auto

lemma trim_not_Nil:
  assumes "c \<in> set s" and "\<not> isWhiteSpace c"
  shows "trim s \<noteq> []"
proof -
  from assms have "c \<in> set (dropWhile isWhiteSpace s)" by (rule dropWhile_keeps)
  then have "c \<in> set (rev (dropWhile isWhiteSpace s))" by simp
  then have "c \<in> set (dropWhile isWhiteSpace (rev (dropWhile isWhiteSpace s)))"
    using assms(2) by (rule dropWhile_keeps)
  then have "dropWhile isWhiteSpace (rev (dropWhile isWhiteSpace s)) \<noteq> []"
    by (metis empty_iff empty_set)
  then show ?thesis unfolding trim_def by simp
qed

lemma trim_hd: "trim s \<noteq> [] \<Longrightarrow> \<not> isWhiteSpace (hd (trim s))"
proof -
  assume n: "trim s \<noteq> []"
  from trim_prefix [of s] obtain r where r: "dropWhile isWhiteSpace s = trim s @ r"
    by (auto simp: prefix_def)
  with n have "hd (trim s) = hd (dropWhile isWhiteSpace s)" by simp
  moreover from r n have "dropWhile isWhiteSpace s \<noteq> []" by auto
  ultimately show ?thesis by (simp add: hd_dropWhile)
qed

text \<open>A fragment of more than one word has a word that holds a character that is not
  white space.\<close>

lemma first_word:
  assumes "length (split_str (trim part) '' '') > 1"
  shows "\<exists>w \<in> set (split_str (trim part) '' ''). \<exists>c \<in> set w. \<not> isWhiteSpace c"
proof -
  from assms have n: "trim part \<noteq> []" by (auto simp: split_str_Nil)
  then obtain c r where t: "trim part = c # r" by (cases "trim part") auto
  with trim_hd [OF n] have c: "\<not> isWhiteSpace c" by simp
  then have "c \<noteq> CHR '' ''" by (auto simp: isWhiteSpace_def)
  then have "split_str (c # r) '' '' = (c # hd (split_str r '' '')) # tl (split_str r '' '')"
    by (simp add: split_str_char_Cons)
  with t c show ?thesis by (metis list.set_intros(1))
qed

lemma toLowerCase_Nil: "toLowerCase s = [] \<longleftrightarrow> s = []"
  by (simp add: toLowerCase_def)

subsection \<open>The words of a fragment, in every order\<close>

text \<open>
  Claim C5, as the code has it. A fragment of more than one word (the words of the
  trimmed fragment, split at single spaces) is replaced by the permutations of its
  words, each joined by single spaces, and by every one of them. When the fragment
  holds no comma, every permutation, trimmed and in lower case, is a candidate of the
  prompt, and the existing tag that matches it is in the result; a comma inside a
  word splits the permutation again when the filtered prompt is split at its commas.
  For the prompt \<open>blue eyes\<close> and the only existing tag \<open>eyes blue\<close> the result
  holds \<open>eyes blue\<close>.
\<close>

theorem permutations_are_candidates:
  "(length (split_str (trim part) '' '') > 1
      \<and> mset perm = mset (split_str (trim part) '' '') \<longrightarrow>
      processedPart part = map (\<lambda>perm. join perm '' '') (permute (split_str (trim part) '' ''))
      \<and> join perm '' '' \<in> set (processedPart part)
      \<and> (line \<in> set (promptLines prompt) \<and> part \<in> set (parts line)
           \<and> CHR '','' \<notin> set part \<longrightarrow>
           toLowerCase (trim (join perm '' '')) \<in> set (candidates prompt)
           \<and> (existingTag existingTags (toLowerCase (trim (join perm '' ''))) = Some tag \<longrightarrow>
                tag \<in> set (promptTags prompt existingTags))))
   \<and> ''eyes blue'' \<in> set (promptTags ''blue eyes'' [''eyes blue''])"
proof -
  have general: "toLowerCase (trim (join perm '' '')) \<in> set (candidates prompt)
      \<and> (existingTag existingTags (toLowerCase (trim (join perm '' ''))) = Some tag \<longrightarrow>
           tag \<in> set (promptTags prompt existingTags))"
    if len: "length (split_str (trim part) '' '') > 1"
      and perm: "mset perm = mset (split_str (trim part) '' '')"
      and line: "line \<in> set (promptLines prompt)" and part: "part \<in> set (parts line)"
      and comma: "CHR '','' \<notin> set part"
    for part perm line prompt existingTags tag
  proof -
    let ?x = "join perm '' ''"
    from perm have words: "set perm = set (split_str (trim part) '' '')"
      by (rule mset_eq_setD)
    from len have "?x \<in> set (processedPart part)"
      using perm by (auto simp: processedPart_def Let_def set_permute)
    with part have x: "?x \<in> set (processedParts line)"
      by (auto simp: processedParts_def)
    have "CHR '','' \<notin> set ?x"
    proof
      assume "CHR '','' \<in> set ?x"
      with set_join [of perm "'' ''"] obtain w where "w \<in> set perm" "CHR '','' \<in> set w"
        by auto
      with words split_str_subset [of w "trim part" "CHR '' ''"] trim_subset [of part] comma
      show False by auto
    qed
    then have "pieces ?x = {trim ?x}" by (rule pieces_plain)
    with processed_pieces [OF line x] have "trim ?x \<in> pieces (filteredPrompt prompt)"
      by auto
    then have t: "toLowerCase (trim ?x) \<in> set (tagNamesOf prompt)"
      by (simp add: tagNamesOf_set)
    from first_word [OF len] words obtain w c
      where "w \<in> set perm" "c \<in> set w" "\<not> isWhiteSpace c" by auto
    with join_subset [of w perm "'' ''"] have "c \<in> set ?x" by auto
    with \<open>\<not> isWhiteSpace c\<close> have "trim ?x \<noteq> []"
      by (intro trim_not_Nil [of c])
    with t have "toLowerCase (trim ?x) \<in> set (candidates prompt)"
      by (simp add: candidates_set toLowerCase_Nil)
    then show ?thesis by (auto simp: promptTags_mem)
  qed
  have 1: "split_str (trim ''blue eyes'') '' '' = [''blue'', ''eyes'']"
    by code_simp
  have 2: "''blue eyes'' \<in> set (promptLines ''blue eyes'')"
    by code_simp
  have 3: "''blue eyes'' \<in> set (parts ''blue eyes'')"
    by code_simp
  have 4: "toLowerCase (trim (join [''eyes'', ''blue''] '' '')) = ''eyes blue''"
    by code_simp
  have 5: "existingTag [''eyes blue''] ''eyes blue'' = Some ''eyes blue''"
    by code_simp
  have "''eyes blue'' \<in> set (promptTags ''blue eyes'' [''eyes blue''])"
    using general [of "''blue eyes''" "[''eyes'', ''blue'']" "''blue eyes''" "''blue eyes''"
        "[''eyes blue'']" "''eyes blue''"] 2 3
    unfolding 1 4 5 by simp
  moreover have "processedPart part = map (\<lambda>perm. join perm '' '') (permute (split_str (trim part) '' ''))
      \<and> join perm '' '' \<in> set (processedPart part)"
    if "length (split_str (trim part) '' '') > 1"
      and "mset perm = mset (split_str (trim part) '' '')"
    using that by (auto simp: processedPart_def Let_def set_permute)
  ultimately show ?thesis using general [of part perm line prompt existingTags tag]
    by blast
qed

theorem permutations_are_candidates_witness:
  "length (split_str (trim ''Blue Eyes'') '' '') > 1
   \<and> mset [''Eyes'', ''Blue''] = mset (split_str (trim ''Blue Eyes'') '' '')
   \<and> processedPart ''Blue Eyes'' = [''Blue Eyes'', ''Eyes Blue'']
   \<and> ''cat, Blue Eyes'' \<in> set (promptLines ''cat, Blue Eyes'')
   \<and> ''Blue Eyes'' \<in> set (parts ''cat, Blue Eyes'')
   \<and> CHR '','' \<notin> set ''Blue Eyes''
   \<and> ''eyes blue'' \<in> set (candidates ''cat, Blue Eyes'')
   \<and> existingTag [''Eyes blue''] ''eyes blue'' = Some ''Eyes blue''
   \<and> ''Eyes blue'' \<in> set (promptTags ''cat, Blue Eyes'' [''Eyes blue''])"
proof -
  note inst = permutations_are_candidates [of "''Blue Eyes''" "[''Eyes'', ''Blue'']"
      "''cat, Blue Eyes''" "''cat, Blue Eyes''" "[''Eyes blue'']" "''Eyes blue''"]
  have w: "split_str (trim ''Blue Eyes'') '' '' = [''Blue'', ''Eyes'']"
    by code_simp
  have q: "permute [''Blue'', ''Eyes''] = [[''Blue'', ''Eyes''], [''Eyes'', ''Blue'']]"
    by code_simp
  have len: "length (split_str (trim ''Blue Eyes'') '' '') > 1"
    by (simp add: w)
  have m: "mset [''Eyes'', ''Blue''] = mset (split_str (trim ''Blue Eyes'') '' '')"
    unfolding w by simp
  have l: "''cat, Blue Eyes'' \<in> set (promptLines ''cat, Blue Eyes'')"
    by code_simp
  have p: "''Blue Eyes'' \<in> set (parts ''cat, Blue Eyes'')"
    by code_simp
  have c: "CHR '','' \<notin> set ''Blue Eyes''"
    by simp
  have t: "toLowerCase (trim (join [''Eyes'', ''Blue''] '' '')) = ''eyes blue''"
    by code_simp
  have e: "existingTag [''Eyes blue''] ''eyes blue'' = Some ''Eyes blue''"
    by code_simp
  from inst len m have "processedPart ''Blue Eyes'' =
      map (\<lambda>perm. join perm '' '') (permute (split_str (trim ''Blue Eyes'') '' ''))"
    by blast
  then have 1: "processedPart ''Blue Eyes'' = [''Blue Eyes'', ''Eyes Blue'']"
    unfolding w q by simp
  from inst len m l p c
  have "toLowerCase (trim (join [''Eyes'', ''Blue''] '' '')) \<in> set (candidates ''cat, Blue Eyes'')"
    by blast
  then have 2: "''eyes blue'' \<in> set (candidates ''cat, Blue Eyes'')"
    unfolding t .
  from inst len m l p c e [folded t]
  have 3: "''Eyes blue'' \<in> set (promptTags ''cat, Blue Eyes'' [''Eyes blue''])"
    by blast
  from len m 1 l p c 2 e 3 show ?thesis by blast
qed

text \<open>
  The claim as it is written fails for a fragment with a comma in a word: the
  permutation \<open>c a,b\<close> of the words of \<open>a,b c\<close> is a processed part and no candidate.
\<close>

theorem permutations_counterexample:
  "''a,b c'' \<in> set (parts ''a,b c'')
   \<and> length (split_str (trim ''a,b c'') '' '') > 1
   \<and> processedPart ''a,b c'' = [''a,b c'', ''c a,b'']
   \<and> candidates ''a,b c'' = [''a'', ''b c'', ''c a'', ''b'']
   \<and> toLowerCase (trim ''c a,b'') \<notin> set (candidates ''a,b c'')"
proof -
  have 1: "''a,b c'' \<in> set (parts ''a,b c'')" by code_simp
  have 2: "split_str (trim ''a,b c'') '' '' = [''a,b'', ''c'']" by code_simp
  have 3: "processedPart ''a,b c'' = [''a,b c'', ''c a,b'']" by code_simp
  have 4: "candidates ''a,b c'' = [''a'', ''b c'', ''c a'', ''b'']" by code_simp
  have 5: "toLowerCase (trim ''c a,b'') = ''c a,b''" by code_simp
  show ?thesis unfolding 4 5 using 1 3 by (simp add: 2)
qed

subsection \<open>The counter and the keys\<close>




subsection \<open>Tasks and the whole of an import\<close>



text \<open>
  \<open>importImage\<close> is the run of its two tasks in one world with nothing in between.
\<close>

lemma importImage_resume:
  "importImage w filename' url' pageUrl' tagNames' s =
     (case resume w (AwaitImage filename' url' pageUrl' tagNames') s of
        (Pending, [AwaitImport lastItem], stored) \<Rightarrow>
          (fst (resume w (AwaitImport lastItem) stored),
           snd (snd (resume w (AwaitImport lastItem) stored)))
      | (r, ts, s') \<Rightarrow> (r, s'))"
proof (cases "imageAsBase64 (image w)")
  case (Resolved x)
  then show ?thesis
    by (cases x; cases filename') (simp_all add: importImage_def resume_def Let_def)
next
  case Rejected
  then show ?thesis by (simp add: importImage_def resume_def)
next
  case Pending
  then show ?thesis by (simp add: importImage_def resume_def)
qed


lemma step_contextMenu:
  "step w (ContextMenu srcUrl title pageUrl') (ts, s) =
     (ts @ [AwaitImage (Some (filenameFromUrl srcUrl title)) (Some srcUrl)
              (Some (case pageUrl' of None \<Rightarrow> [] | Some u \<Rightarrow> u)) None], s)"
  by (simp add: step_def listen_def)

text \<open>With no other event in between, the steps of the listener of the context menu
  give what \<open>contextMenuClicked\<close> gives.\<close>

lemma contextMenuClicked_steps:
  "snd (step w (Settle 0) (step w (Settle 0) (step w (ContextMenu srcUrl title pageUrl') ([], s))))
     = contextMenuClicked w srcUrl title pageUrl' s"
proof -
  let ?t = "AwaitImage (Some (filenameFromUrl srcUrl title)) (Some srcUrl)
              (Some (case pageUrl' of None \<Rightarrow> [] | Some u \<Rightarrow> u)) None"
  show ?thesis
  proof (cases "imageAsBase64 (image w)")
    case (Resolved x)
    then show ?thesis
      unfolding step_contextMenu contextMenuClicked_def
      by (cases x) (simp add: step_def importImage_def resume_def Let_def)
  next
    case Rejected
    then show ?thesis
      unfolding step_contextMenu contextMenuClicked_def
      by (simp add: step_def importImage_def resume_def)
  next
    case Pending
    then show ?thesis
      unfolding step_contextMenu contextMenuClicked_def
      by (simp add: step_def importImage_def resume_def)
  qed
qed

subsection \<open>The keys of one run\<close>
















subsection \<open>Evaluating the examples\<close>



lemma png_subtype: "at (split_str ''image/png'' ''/'') (Suc 0) = Some ''png''"
  by (simp add: at_def split_str_def literal_def)







subsection \<open>The import request\<close>

lemma importImage_loaded:
  assumes "image w = Loaded base64 blobType"
  shows "importImage w (Some name) url' pageUrl' tagNames' s =
     (let extension = at (split_str blobType ''/'') 1;
          lastItem = \<lparr>filename = Some (if endsWith name (toString extension) then name
                                       else name @ ''.'' @ toString extension),
            url = url', imgBase64 = Some base64,
            tagNames = Some (case tagNames' of None \<Rightarrow> [] | Some names \<Rightarrow> names),
            pageUrl = pageUrl', error = Some False\<rparr>;
          stored = s\<lparr>lastSubmittedItem := Some lastItem,
            requests := requests s @ [PostImportImage lastItem]\<rparr>
      in if importAccepted w
         then (Resolved (), stored\<lparr>badge := Some (''rgb(51, 153, 255)'', ''1'')\<rparr>)
         else (Resolved (), importFailed lastItem stored))"
  using assms by (simp add: importImage_def imageAsBase64_def Let_def)

text \<open>
  Claim C6 does not hold of the code. \<open>importImage\<close> builds \<open>filenameWithExtension\<close>
  by appending \<open>.\<close> and the subtype, but tests \<^verbatim>\<open>filename.endsWith(extension)\<close> without
  the \<open>.\<close>: the title \<open>Transparent png\<close> carries no extension, and the PNG picked
  from the context menu is posted under that name. A blob whose type has no subtype
  is posted with the extension \<open>undefined\<close>.
\<close>

theorem importImage_extension_missing:
  "\<not> endsWith ''Transparent png'' ''.png''
   \<and> requests (contextMenuClicked (appClosed\<lparr>importAccepted := True\<rparr>)
        ''https://x.com/images/1234'' ''Transparent png'' None (initial None))
     = [PostImportImage \<lparr>filename = Some ''Transparent png'',
          url = Some ''https://x.com/images/1234'',
          imgBase64 = Some ''data:image/png;base64,AAAA'', tagNames = Some [],
          pageUrl = Some [], error = Some False\<rparr>]
   \<and> requests (snd (importImage
        (appClosed\<lparr>image := Loaded ''data:;base64,AAAA'' [], importAccepted := True\<rparr>)
        (Some ''photo'') (Some ''https://x.com/a/photo'') None None (initial None)))
     = [PostImportImage \<lparr>filename = Some ''photo.undefined'',
          url = Some ''https://x.com/a/photo'',
          imgBase64 = Some ''data:;base64,AAAA'', tagNames = Some [],
          pageUrl = None, error = Some False\<rparr>]"
proof -
  have f: "filenameFromUrl ''https://x.com/images/1234'' ''Transparent png'' = ''Transparent png''"
    by code_simp
  have e: "\<not> endsWith ''Transparent png'' ''.png''" "endsWith ''Transparent png'' ''png''"
    "\<not> endsWith ''photo'' ''undefined''"
    by (simp_all add: endsWith_def suffix_to_prefix)
  have i: "image (appClosed\<lparr>importAccepted := True\<rparr>)
      = Loaded ''data:image/png;base64,AAAA'' ''image/png''"
    by (simp add: appClosed_def)
  have j: "image (appClosed\<lparr>image := Loaded ''data:;base64,AAAA'' [], importAccepted := True\<rparr>)
      = Loaded ''data:;base64,AAAA'' []"
    by simp
  have n: "at (split_str [] ''/'') (Suc 0) = None"
    by (simp add: at_def split_str_Nil)
  have 1: "requests (contextMenuClicked (appClosed\<lparr>importAccepted := True\<rparr>)
        ''https://x.com/images/1234'' ''Transparent png'' None (initial None))
     = [PostImportImage \<lparr>filename = Some ''Transparent png'',
          url = Some ''https://x.com/images/1234'',
          imgBase64 = Some ''data:image/png;base64,AAAA'', tagNames = Some [],
          pageUrl = Some [], error = Some False\<rparr>]"
    unfolding contextMenuClicked_def f importImage_loaded [OF i]
    using e png_subtype by (simp add: Let_def toString_def initial_def)
  have 2: "requests (snd (importImage
        (appClosed\<lparr>image := Loaded ''data:;base64,AAAA'' [], importAccepted := True\<rparr>)
        (Some ''photo'') (Some ''https://x.com/a/photo'') None None (initial None)))
     = [PostImportImage \<lparr>filename = Some ''photo.undefined'',
          url = Some ''https://x.com/a/photo'',
          imgBase64 = Some ''data:;base64,AAAA'', tagNames = Some [],
          pageUrl = None, error = Some False\<rparr>]"
    unfolding importImage_loaded [OF j]
    using e n by (simp add: Let_def toString_def initial_def)
  from e(1) 1 2 show ?thesis by blast
qed

text \<open>Whatever the network does, the promise of \<open>importImage\<close> does not reject.\<close>

lemma importImage_never_rejects:
  "fst (importImage w filename' url' pageUrl' tagNames' s) \<noteq> Rejected"
  by (simp add: importImage_def Let_def split: promise.splits option.splits prod.splits)




subsection \<open>The retry\<close>

text \<open>
  On the path that the listener guards, \<open>importImage\<close> runs with the file name and
  the URL of the stored item and with nothing else: the item that is posted has the
  empty list of tag names, whatever the stored item has.
\<close>

lemma notificationClicked_guarded:
  assumes "lastSubmittedItem s = Some lastItem"
    and "startsWith notificationId ''import-error''" and "buttonIndex = Some 0"
  shows "notificationClicked w notificationId buttonIndex s
       = snd (importImage w (filename lastItem) (url lastItem) None None s)
   \<and> (image w = Loaded base64 blobType \<and> filename lastItem = Some name \<longrightarrow>
        (\<exists>retried.
           requests (notificationClicked w notificationId buttonIndex s)
             = requests s @ [PostImportImage retried]
           \<and> url retried = url lastItem \<and> tagNames retried = Some []
           \<and> pageUrl retried = None \<and> imgBase64 retried = Some base64))"
proof -
  have 1: "notificationClicked w notificationId buttonIndex s
       = snd (importImage w (filename lastItem) (url lastItem) None None s)"
    using assms by (simp add: notificationClicked_def)
  have "\<exists>retried.
           requests (snd (importImage w (Some name) (url lastItem) None None s))
             = requests s @ [PostImportImage retried]
           \<and> url retried = url lastItem \<and> tagNames retried = Some []
           \<and> pageUrl retried = None \<and> imgBase64 retried = Some base64"
    if i: "image w = Loaded base64 blobType"
    by (cases "importAccepted w") (auto simp: importImage_loaded [OF i] Let_def importFailed_def)
  with 1 show ?thesis by auto
qed

text \<open>
  Claim C9 does not hold of the code. The notification has no buttons, and the
  browser calls a listener of \<open>chrome.notifications.onClicked\<close> with the id of the
  notification only: \<open>buttonIndex\<close> is \<open>undefined\<close>, the test \<^verbatim>\<open>buttonIndex === 0\<close>
  fails, and the click runs no import and changes nothing, whatever is stored.
\<close>

theorem notificationClicked_without_button:
  "notificationClicked w notificationId None s = s
   \<and> step w (NotificationClick notificationId None) (ts, s) = (ts, s)
   \<and> notificationClicked appClosed ''import-error-0'' None afterFailure = afterFailure"
  by (simp add: notificationClicked_def step_def listen_def split: option.splits)

subsection \<open>Failures that the listeners do not handle\<close>

text \<open>
  Claim C8 does not hold of the code. When the listing of the tags cannot be fetched
  or read, the listener for external messages rejects after the request for the
  tags: no image is imported and nothing is stored. The handler of \<open>getTags\<close> in
  \<open>handleMessage\<close> has the \<open>catch\<close> that the listener lacks and answers with the
  empty list.
\<close>

theorem onMessageExternal_tags_unreachable:
  "onMessageExternal (w\<lparr>tagsListing := TagsUnreachable\<rparr>)
       (SendAllusionImage src alt pageUrl' prompt) tabTitle s
     = (Rejected, s\<lparr>requests := requests s @ [GetTagsList]\<rparr>)
   \<and> onMessageExternal (w\<lparr>tagsListing := TagsMalformed\<rparr>)
       (SendAllusionImage src alt pageUrl' prompt) tabTitle s
     = (Rejected, s\<lparr>requests := requests s @ [GetTagsList]\<rparr>)
   \<and> fst (handleMessage (w\<lparr>tagsListing := TagsUnreachable\<rparr>) GetTags s) = TagNames []
   \<and> fst (handleMessage (w\<lparr>tagsListing := TagsMalformed\<rparr>) GetTags s) = TagNames []"
  by (simp add: onMessageExternal_def handleMessage_def Let_def)

text \<open>
  Claim C10 does not hold of the code when the fetch of the image fails: the promise
  of \<open>imageAsBase64\<close> stays pending, \<open>importImage\<close> never reaches its \<open>catch\<close> block and
  the state stays as it is. When the \<open>FileReader\<close> reports an error the promise
  rejects, and the stored item is replaced by an object that holds \<open>error: true\<close> and
  nothing else, as the claim says.
\<close>

theorem importImage_fetch_fails:
  "importImage (w\<lparr>image := FetchFails\<rparr>) filename' url' pageUrl' tagNames' s = (Pending, s)
   \<and> importImage (w\<lparr>image := BlobFails\<rparr>) filename' url' pageUrl' tagNames' s = (Pending, s)
   \<and> fst (importImage (w\<lparr>image := ReaderFails\<rparr>) filename' url' pageUrl' tagNames' s)
       = Resolved ()
   \<and> lastSubmittedItem
        (snd (importImage (w\<lparr>image := ReaderFails\<rparr>) filename' url' pageUrl' tagNames' s))
       = Some \<lparr>filename = None, url = None, imgBase64 = None, tagNames = None,
           pageUrl = None, error = Some True\<rparr>"
  by (simp add: importImage_def imageAsBase64_def importFailed_def emptyObject_def)


end

